theory Spec2Isabelle
  imports Main "HOL-Library.AList"
begin

section \<open>Task orchestration and session state of app.py\<close>

text \<open>
  The development embeds the part of \<^verbatim>\<open>src/app.py\<close> that owns the shared state: the class
  \<^verbatim>\<open>GlobalState\<close>, the handlers \<^verbatim>\<open>api_login\<close>, \<^verbatim>\<open>get_courses\<close>, \<^verbatim>\<open>get_lessions\<close>,
  \<^verbatim>\<open>start_task\<close>, \<^verbatim>\<open>stop_tasks\<close>, \<^verbatim>\<open>get_status\<close>, and the two thread classes
  \<^verbatim>\<open>BrainBurstThread\<close> and \<^verbatim>\<open>AwayFromKeyboardThread\<close>.

  Handlers are state transformers that return their JSON answer; a handler runs without
  another handler in between, and threads run between handlers and while \<^verbatim>\<open>stop_tasks\<close>
  waits. A thread is a record with a program counter; one step of a thread performs at most
  one access to the shared state, so that a schedule (a list of events) fixes one
  interleaving of handlers and threads.
  What the program obtains from outside is an argument of the model: the verdict of the remote
  site on a cookie jar, whether \<^verbatim>\<open>config.json\<close> can be written, whether \<^verbatim>\<open>Thread.start\<close>
  gets a thread, the number drawn by \<^verbatim>\<open>random.randint\<close>, and which thread runs next.
  The log buffer, the timestamps and the remote payloads play no part in the state machine and
  are left out.
\<close>

subsection \<open>Data\<close>

text \<open>\<^verbatim>\<open>TaskStatusType\<close>, lines 94-96: the six literals.\<close>

datatype task_status_type =
  Idle | Brain_burst | Away_from_keyboard | Error | Completed | Nologon

text \<open>
  The second constructor argument of a thread (\<^verbatim>\<open>mycrate\<close>, \<^verbatim>\<open>duration\<close>). The annotation is
  \<^verbatim>\<open>Union[int, Tuple[int, int]]\<close>; a request body decoded from JSON can also deliver an array,
  which Python reads as a list and not as a tuple, or any other value.
\<close>

datatype param =
  PInt int              \<comment> \<open>an integer\<close>
| PTuple int int        \<comment> \<open>a Python tuple of two integers\<close>
| PList "int list"      \<comment> \<open>a JSON array, decoded as a Python list\<close>
| POther                \<comment> \<open>a string, a float, null or an object\<close>

datatype thread_class = BrainBurstThread | AwayFromKeyboardThread

text \<open>
  Where a thread stands inside \<^verbatim>\<open>run\<close>. \<open>Check i hi tot\<close> is the head of the loop body at
  index \<open>i\<close> of a range ending before \<open>hi\<close>, about to read the stop event; \<open>Write i hi tot\<close>
  is about to store the progress pair \<open>(i, tot)\<close>; \<open>Finish\<close> is about to store
  \<^verbatim>\<open>"completed"\<close>; \<open>Failed\<close> is inside the \<^verbatim>\<open>except\<close> clause, about to store \<^verbatim>\<open>"error"\<close>.
  The field \<open>started\<close> of a thread says whether \<^verbatim>\<open>Thread.start\<close> has returned for it; only
  then does it run, and only then can it be joined.
\<close>

datatype pc =
  Init | Resolve | Check int int int | Write int int int | Finish | Failed | Done

record thread =
  cls :: thread_class
  unit_idx :: int
  arg :: param
  pc :: pc
  started :: bool

text \<open>\<^verbatim>\<open>GlobalState\<close>, lines 100-117, without the log buffer. Threads are named by their
  position in the pool of thread objects.\<close>

record global_state =
  current_task :: "nat option"
  task_status :: task_status_type
  progress :: "int \<times> int"
  stop_event :: bool
  active_threads :: "nat list"
  cookies :: "(string \<times> string) list option"
  cid :: "string option"
  uid :: "string option"
  classid :: "string option"

text \<open>
  The process: the \<^verbatim>\<open>state\<close> singleton, every thread object created so far, the cookie jar
  of the \<^verbatim>\<open>httpx\<close> client, the contents of \<^verbatim>\<open>config.json\<close> and how many writes of it
  were completed.
\<close>

record system =
  state :: global_state
  threads :: "thread list"
  client_cookies :: "(string \<times> string) list"
  config_json :: "string option"
  config_writes :: nat

datatype exn = KeyError string | ValueError | TypeError | BadRequest | OSError | RuntimeError

text \<open>
  The error texts of the handlers: line 292 (cookie validation failed), lines 301 and 318
  (please log in first), line 347 (a task is already in progress), line 359 (unknown task
  type), and \<^verbatim>\<open>str(e)\<close> of a caught exception.
\<close>

datatype error =
  CookieInvalid | PleaseLogin | TaskInProgress | UnknownTaskType | Exception exn

datatype response = Success | Failure error

subsection \<open>GlobalState.reset\<close>

definition reset :: global_state where
  "reset = \<lparr> current_task = None, task_status = Nologon, progress = (0, 0),
     stop_event = False, active_threads = [], cookies = None,
     cid = None, uid = None, classid = None \<rparr>"

definition init_system :: system where
  "init_system = \<lparr> state = reset, threads = [], client_cookies = [],
     config_json = None, config_writes = 0 \<rparr>"

subsection \<open>api_login\<close>

text \<open>\<^verbatim>\<open>str.split(sep)\<close>: the empty string gives one empty piece.\<close>

fun split_on :: "char \<Rightarrow> string \<Rightarrow> string list" where
  "split_on c [] = [[]]"
| "split_on c (x # xs) =
     (if x = c then [] # split_on c xs
      else (case split_on c xs of [] \<Rightarrow> [[x]] | y # ys \<Rightarrow> (x # y) # ys))"

text \<open>\<^verbatim>\<open>x.split("=", 1)\<close>: two pieces when an equals sign occurs, one piece (here \<open>None\<close>)
  otherwise.\<close>

fun split_eq :: "string \<Rightarrow> (string \<times> string) option" where
  "split_eq [] = None"
| "split_eq (c # cs) =
     (if c = CHR ''='' then Some ([], cs)
      else (case split_eq cs of None \<Rightarrow> None | Some (k, v) \<Rightarrow> Some (c # k, v)))"

text \<open>\<^verbatim>\<open>dict(...)\<close> over the pieces: a piece that is not a pair raises \<^verbatim>\<open>ValueError\<close>; a key
  met again keeps its place and takes the new value.\<close>

fun dict_of :: "string list \<Rightarrow> (string \<times> string) list \<Rightarrow> exn + (string \<times> string) list" where
  "dict_of [] d = Inr d"
| "dict_of (x # xs) d =
     (case split_eq x of
        None \<Rightarrow> Inl ValueError
      | Some (k, v) \<Rightarrow> dict_of xs (AList.update k v d))"

definition parse_cookies :: "string \<Rightarrow> exn + (string \<times> string) list" where
  "parse_cookies text = dict_of (filter (\<lambda>x. x \<noteq> []) (split_on CHR '';'' text)) []"

text \<open>
  What becomes of lines 282-283: the file is written; or \<^verbatim>\<open>open\<close> raises and the file stays
  as it was; or \<^verbatim>\<open>json.dump\<close> raises after \<^verbatim>\<open>open\<close> has emptied the file, leaving the
  given part of the text.
\<close>

datatype file_write = Written | OpenFailed | DumpFailed string

text \<open>
  Lines 268-294. \<open>valid\<close> is what \<^verbatim>\<open>validate_cookies\<close> answers for the parsed jar, \<open>wr\<close>
  what becomes of the write. The first statement resets the state, outside the \<^verbatim>\<open>try\<close>.
  The jar of the client and \<^verbatim>\<open>state.cookies\<close> are stored before the file is written, so a
  write that raises leaves them stored. \<^verbatim>\<open>get_user_info\<close> catches what it raises.
\<close>

definition api_login :: "string \<Rightarrow> bool \<Rightarrow> file_write \<Rightarrow> system \<Rightarrow> response \<times> system" where
  "api_login text valid wr s =
     (let s0 = s \<lparr> state := reset \<rparr> in
      case parse_cookies text of
        Inl e \<Rightarrow> (Failure (Exception e), s0)
      | Inr cookie_dict \<Rightarrow>
          if valid then
            (let s1 = s0 \<lparr> client_cookies :=
                          foldl (\<lambda>d (k, v). AList.update k v d) (client_cookies s0) cookie_dict,
                        state := (state s0) \<lparr> cookies := Some cookie_dict \<rparr> \<rparr>
             in case wr of
                  OpenFailed \<Rightarrow> (Failure (Exception OSError), s1)
                | DumpFailed part \<Rightarrow> (Failure (Exception OSError), s1 \<lparr> config_json := Some part \<rparr>)
                | Written \<Rightarrow>
                    (Success,
                     s1 \<lparr> config_json := Some text,
                          config_writes := Suc (config_writes s1),
                          state := (state s1) \<lparr> task_status := Idle \<rparr> \<rparr>))
          else (Failure CookieInvalid, s0))"

subsection \<open>get_courses and get_lessions\<close>

text \<open>Python's \<^verbatim>\<open>not state.cookies\<close>: true for \<^verbatim>\<open>None\<close> and for the empty dictionary.\<close>

fun falsy :: "(string \<times> string) list option \<Rightarrow> bool" where
  "falsy None = True"
| "falsy (Some d) = (d = [])"

text \<open>Lines 300-301 and 317-318; \<open>remote\<close> is the answer built from the remote payload
  when the guard lets the request through.\<close>

definition get_courses :: "response \<Rightarrow> system \<Rightarrow> response" where
  "get_courses remote s =
     (if falsy (cookies (state s)) \<or> task_status (state s) = Nologon
      then Failure PleaseLogin else remote)"

definition get_lessions :: "response \<Rightarrow> system \<Rightarrow> response" where
  "get_lessions remote s =
     (if falsy (cookies (state s)) \<or> task_status (state s) = Nologon
      then Failure PleaseLogin else remote)"

subsection \<open>start_task\<close>

text \<open>The JSON body of a start request; a missing key is \<open>None\<close>.\<close>

record start_request =
  req_type :: "string option"
  req_unitIndex :: "int option"
  req_params :: "param option"

text \<open>The thread object as its constructor leaves it: at the entry of \<^verbatim>\<open>run\<close>, not started.\<close>

definition new_thread :: "thread_class \<Rightarrow> int \<Rightarrow> param \<Rightarrow> thread" where
  "new_thread c u p = \<lparr> cls = c, unit_idx = u, arg = p, pc = Init, started = False \<rparr>"

text \<open>
  Lines 361-363: the thread object is appended to \<^verbatim>\<open>active_threads\<close>, then started.
  \<open>launch\<close> says whether \<^verbatim>\<open>Thread.start\<close> gets a thread; when it raises
  \<^verbatim>\<open>RuntimeError\<close> the object stays registered and is never run.
\<close>

definition spawn :: "thread \<Rightarrow> bool \<Rightarrow> system \<Rightarrow> response \<times> system" where
  "spawn t launch s =
     (let s1 = s \<lparr> state := (state s)
                     \<lparr> active_threads := active_threads (state s) @ [length (threads s)] \<rparr>,
                   threads := threads s @ [t] \<rparr>
      in if launch then (Success, s1 \<lparr> threads := threads s @ [t \<lparr> started := True \<rparr>] \<rparr>)
         else (Failure (Exception RuntimeError), s1))"

text \<open>Lines 342-365. \<open>None\<close> as body is a request whose JSON cannot be read.\<close>

definition start_task :: "start_request option \<Rightarrow> bool \<Rightarrow> system \<Rightarrow> response \<times> system" where
  "start_task body launch s =
     (if task_status (state s) \<noteq> Idle then (Failure TaskInProgress, s)
      else case body of
        None \<Rightarrow> (Failure (Exception BadRequest), s)
      | Some data \<Rightarrow>
         (case req_type data of
            None \<Rightarrow> (Failure (Exception (KeyError ''type'')), s)
          | Some task_type \<Rightarrow>
         (case req_unitIndex data of
            None \<Rightarrow> (Failure (Exception (KeyError ''unitIndex'')), s)
          | Some unit_index \<Rightarrow>
         (case req_params data of
            None \<Rightarrow> (Failure (Exception (KeyError ''params'')), s)
          | Some params \<Rightarrow>
              if task_type = ''brain_burst''
              then spawn (new_thread BrainBurstThread unit_index params) launch s
              else if task_type = ''away_from_keyboard''
              then spawn (new_thread AwayFromKeyboardThread unit_index params) launch s
              else (Failure UnknownTaskType, s)))))"

subsection \<open>The thread bodies\<close>

datatype store = WStatus task_status_type | WProgress int int

text \<open>\<^verbatim>\<open>random.randint(a, b)\<close> for \<open>a \<le> b\<close>: the entropy \<open>r\<close> selects one of the
  \<open>b - a + 1\<close> values.\<close>

definition randint :: "int \<Rightarrow> int \<Rightarrow> int \<Rightarrow> int" where
  "randint a b r = a + r mod (b - a + 1)"

text \<open>
  Lines 449-454, up to the call of \<^verbatim>\<open>range\<close>: a tuple is handed to \<^verbatim>\<open>randint\<close>, which raises
  \<^verbatim>\<open>ValueError\<close> on an empty range; anything else is taken as it is, and \<^verbatim>\<open>range\<close> raises
  \<^verbatim>\<open>TypeError\<close> unless it is an integer.
\<close>

fun resolve_total :: "int \<Rightarrow> param \<Rightarrow> exn + int" where
  "resolve_total r (PTuple a b) = (if a \<le> b then Inr (randint a b r) else Inl ValueError)"
| "resolve_total r (PInt n) = Inr n"
| "resolve_total r (PList xs) = Inl TypeError"
| "resolve_total r POther = Inl TypeError"

text \<open>The \<^verbatim>\<open>for\<close> statement at index \<open>i\<close>: the body when the range still has \<open>i\<close>, the
  statement after the loop otherwise.\<close>

definition enter_loop :: "int \<Rightarrow> int \<Rightarrow> int \<Rightarrow> pc" where
  "enter_loop i hi tot = (if i < hi then Check i hi tot else Finish)"

text \<open>
  One step of \<^verbatim>\<open>run\<close> (lines 419-432 and 444-462). \<open>stop\<close> is the value of
  \<^verbatim>\<open>state.stop_event.is_set()\<close> at this moment, \<open>r\<close> the entropy for \<^verbatim>\<open>randint\<close>. The result
  is the store to the shared state, if the step makes one, and the thread afterwards.
\<close>

definition thread_step :: "bool \<Rightarrow> int \<Rightarrow> thread \<Rightarrow> store option \<times> thread" where
  "thread_step stop r t =
     (case pc t of
        Init \<Rightarrow>
          (case cls t of
             BrainBurstThread \<Rightarrow> (Some (WStatus Brain_burst), t \<lparr> pc := enter_loop 1 101 100 \<rparr>)
           | AwayFromKeyboardThread \<Rightarrow> (Some (WStatus Away_from_keyboard), t \<lparr> pc := Resolve \<rparr>))
      | Resolve \<Rightarrow>
          (case resolve_total r (arg t) of
             Inl e \<Rightarrow> (None, t \<lparr> pc := Failed \<rparr>)
           | Inr tot \<Rightarrow> (None, t \<lparr> pc := enter_loop 0 tot tot \<rparr>))
      | Check i hi tot \<Rightarrow>
          (if stop then (None, t \<lparr> pc := Finish \<rparr>) else (None, t \<lparr> pc := Write i hi tot \<rparr>))
      | Write i hi tot \<Rightarrow> (Some (WProgress i tot), t \<lparr> pc := enter_loop (i + 1) hi tot \<rparr>)
      | Finish \<Rightarrow> (Some (WStatus Completed), t \<lparr> pc := Done \<rparr>)
      | Failed \<Rightarrow> (Some (WStatus Error), t \<lparr> pc := Done \<rparr>)
      | Done \<Rightarrow> (None, t))"

fun apply_write :: "store option \<Rightarrow> global_state \<Rightarrow> global_state" where
  "apply_write None g = g"
| "apply_write (Some (WStatus st)) g = g \<lparr> task_status := st \<rparr>"
| "apply_write (Some (WProgress c t)) g = g \<lparr> progress := (c, t) \<rparr>"

text \<open>The scheduler lets thread \<open>tid\<close> take one step; a name that is no thread, and a
  thread that was never started, do nothing.\<close>

definition worker_step :: "nat \<Rightarrow> int \<Rightarrow> system \<Rightarrow> system" where
  "worker_step tid r s =
     (if tid < length (threads s) \<and> started (threads s ! tid) then
        (case thread_step (stop_event (state s)) r (threads s ! tid) of
           (w, t') \<Rightarrow> s \<lparr> state := apply_write w (state s), threads := (threads s)[tid := t'] \<rparr>)
      else s)"

fun worker_steps :: "(nat \<times> int) list \<Rightarrow> system \<Rightarrow> system" where
  "worker_steps [] s = s"
| "worker_steps ((tid, r) # w) s = worker_steps w (worker_step tid r s)"

subsection \<open>stop_tasks and get_status\<close>

text \<open>\<^verbatim>\<open>t.join(timeout=5)\<close> returns for a thread that was started and raises
  \<^verbatim>\<open>RuntimeError\<close> for one that was not. Every name in \<^verbatim>\<open>active_threads\<close> of a state the
  program reaches is a thread object.\<close>

definition joinable :: "system \<Rightarrow> nat \<Rightarrow> bool" where
  "joinable s tid = (if tid < length (threads s) then started (threads s ! tid) else True)"

text \<open>
  Lines 368-378. The handler sets the event and joins the registered threads in order, each
  with timeout 5. While it is in the loop the threads run: \<open>w\<close> is the list of thread steps
  taken before the loop is left. When every join has returned or timed out the state is
  reset and the answer is success. A join that raises ends the loop: the \<^verbatim>\<open>except\<close> clause
  answers with the failure and the state is not reset, so the event stays set. The answer
  comes with the list of joins that were made (thread and timeout).
\<close>

definition stop_tasks ::
  "(nat \<times> int) list \<Rightarrow> system \<Rightarrow> (response \<times> (nat \<times> nat) list) \<times> system" where
  "stop_tasks w s =
     (let s1 = s \<lparr> state := (state s) \<lparr> stop_event := True \<rparr> \<rparr>;
          registered = active_threads (state s1);
          joins = map (\<lambda>t. (t, 5)) (takeWhile (joinable s1) registered);
          s2 = worker_steps w s1
      in if list_all (joinable s1) registered
         then ((Success, joins), s2 \<lparr> state := reset \<rparr>)
         else ((Failure (Exception RuntimeError), joins), s2))"

text \<open>Lines 381-390.\<close>

definition get_status :: "system \<Rightarrow> task_status_type \<times> (int \<times> int) \<times> nat" where
  "get_status s =
     (task_status (state s), progress (state s), length (active_threads (state s)))"

subsection \<open>Schedules\<close>

datatype event =
  Login string bool file_write
| StartTask "start_request option" bool
| Stop "(nat \<times> int) list"
| Step nat int

fun exec :: "event \<Rightarrow> system \<Rightarrow> system" where
  "exec (Login text valid wr) s = snd (api_login text valid wr s)"
| "exec (StartTask body launch) s = snd (start_task body launch s)"
| "exec (Stop w) s = snd (stop_tasks w s)"
| "exec (Step tid r) s = worker_step tid r s"

fun run :: "event list \<Rightarrow> system \<Rightarrow> system" where
  "run [] s = s"
| "run (e # es) s = run es (exec e s)"

text \<open>The stores one thread makes when it is stepped with the given readings of the stop
  event and entropies, in order.\<close>

fun thread_trace :: "(bool \<times> int) list \<Rightarrow> thread \<Rightarrow> store list" where
  "thread_trace [] t = []"
| "thread_trace ((stop, r) # obs) t =
     (case thread_step stop r t of
        (None, t') \<Rightarrow> thread_trace obs t'
      | (Some w, t') \<Rightarrow> w # thread_trace obs t')"

fun progress_writes :: "store list \<Rightarrow> (int \<times> int) list" where
  "progress_writes [] = []"
| "progress_writes (WProgress c t # ws) = (c, t) # progress_writes ws"
| "progress_writes (WStatus st # ws) = progress_writes ws"

text \<open>Threads that were started and have not left \<^verbatim>\<open>run\<close>.\<close>

definition live_threads :: "system \<Rightarrow> nat" where
  "live_threads s = length (filter (\<lambda>t. started t \<and> pc t \<noteq> Done) (threads s))"

text \<open>The thread itself after the same steps.\<close>

fun thread_after :: "(bool \<times> int) list \<Rightarrow> thread \<Rightarrow> thread" where
  "thread_after [] t = t"
| "thread_after ((stop, r) # obs) t = thread_after obs (snd (thread_step stop r t))"


subsection \<open>Predicates and inputs used in the statements\<close>

text \<open>A login whose text parses and whose jar the remote site accepts: the logins that
  reach line 281 and store the cookies.\<close>

fun accepted_login :: "event \<Rightarrow> bool" where
  "accepted_login (Login text valid wr) =
     (valid \<and> (case parse_cookies text of Inl e \<Rightarrow> False | Inr d \<Rightarrow> True))"
| "accepted_login (StartTask body launch) = False"
| "accepted_login (Stop w) = False"
| "accepted_login (Step tid r) = False"

text \<open>Events other than a stop and a login, the two callers of \<^verbatim>\<open>reset\<close>.\<close>

fun no_reset :: "event \<Rightarrow> bool" where
  "no_reset (Login text valid wr) = False"
| "no_reset (StartTask body launch) = True"
| "no_reset (Stop w) = False"
| "no_reset (Step tid r) = True"

text \<open>The two statuses a thread stores when it leaves \<^verbatim>\<open>run\<close>.\<close>

definition terminal :: "task_status_type \<Rightarrow> bool" where
  "terminal st = (st = Completed \<or> st = Error)"

text \<open>A thread that was started and has not left \<^verbatim>\<open>run\<close>.\<close>

definition live :: "thread \<Rightarrow> bool" where
  "live t = (started t \<and> pc t \<noteq> Done)"

text \<open>
  Thread \<open>tid\<close> is the only registered thread, is about to leave \<^verbatim>\<open>run\<close> (about to store
  completed, or in the \<^verbatim>\<open>except\<close> clause about to store error), and no other thread is
  running.
\<close>

definition sole_worker :: "system \<Rightarrow> nat \<Rightarrow> bool" where
  "sole_worker s tid =
     (tid < length (threads s)
      \<and> active_threads (state s) = [tid]
      \<and> started (threads s ! tid)
      \<and> (pc (threads s ! tid) = Finish \<or> pc (threads s ! tid) = Failed)
      \<and> list_all (\<lambda>j. j = tid \<or> \<not> live (threads s ! j)) [0 ..< length (threads s)])"

text \<open>Whenever the thread, stepped with these readings, reads the stop event (it does so at
  the head of the loop body and nowhere else), it reads it as set.\<close>

fun reads_set :: "(bool \<times> int) list \<Rightarrow> thread \<Rightarrow> bool" where
  "reads_set [] t = True"
| "reads_set ((stop, r) # obs) t =
     ((case pc t of Check i hi tot \<Rightarrow> stop | _ \<Rightarrow> True)
      \<and> reads_set obs (snd (thread_step stop r t)))"

text \<open>Arguments on which lines 449-454 do not raise.\<close>

fun valid_duration :: "param \<Rightarrow> bool" where
  "valid_duration (PInt n) = True"
| "valid_duration (PTuple a b) = (a \<le> b)"
| "valid_duration (PList xs) = False"
| "valid_duration POther = False"

text \<open>A thread that is still inside \<^verbatim>\<open>run\<close>, is not inside the \<^verbatim>\<open>except\<close> clause, and
  whose set-up, if still ahead, does not raise.\<close>

definition in_flight :: "thread \<Rightarrow> bool" where
  "in_flight t =
     (case pc t of
        Init \<Rightarrow> cls t = BrainBurstThread \<or> valid_duration (arg t)
      | Resolve \<Rightarrow> valid_duration (arg t)
      | Check i hi tot \<Rightarrow> True
      | Write i hi tot \<Rightarrow> True
      | Finish \<Rightarrow> True
      | Failed \<Rightarrow> False
      | Done \<Rightarrow> False)"

definition bb_request :: "start_request option" where
  "bb_request =
     Some \<lparr> req_type = Some ''brain_burst'', req_unitIndex = Some 0, req_params = Some (PInt 1) \<rparr>"

definition afk_request :: "param \<Rightarrow> start_request option" where
  "afk_request p =
     Some \<lparr> req_type = Some ''away_from_keyboard'', req_unitIndex = Some 0, req_params = Some p \<rparr>"

text \<open>The process after start-up without a configuration file and one accepted login.\<close>

definition logged_in :: system where
  "logged_in = snd (api_login ''a=b'' True Written init_system)"

section \<open>Properties\<close>

lemmas model_defs =
  init_system_def reset_def api_login_def parse_cookies_def start_task_def spawn_def
  new_thread_def worker_step_def thread_step_def enter_loop_def stop_tasks_def joinable_def
  Let_def

subsection \<open>What a thread step leaves alone\<close>

lemma apply_write_frame:
  "stop_event (apply_write w g) = stop_event g"
  "cookies (apply_write w g) = cookies g"
  "active_threads (apply_write w g) = active_threads g"
  by (cases "(w, g)" rule: apply_write.cases; simp)+

lemma worker_step_frame:
  "stop_event (state (worker_step tid r s)) = stop_event (state s)"
  "cookies (state (worker_step tid r s)) = cookies (state s)"
  "active_threads (state (worker_step tid r s)) = active_threads (state s)"
  "length (threads (worker_step tid r s)) = length (threads s)"
  "client_cookies (worker_step tid r s) = client_cookies s"
  "config_json (worker_step tid r s) = config_json s"
  "config_writes (worker_step tid r s) = config_writes s"
  by (simp_all add: worker_step_def apply_write_frame split: prod.split)

lemma worker_steps_frame:
  "stop_event (state (worker_steps w s)) = stop_event (state s)"
  "cookies (state (worker_steps w s)) = cookies (state s)"
  "active_threads (state (worker_steps w s)) = active_threads (state s)"
  "length (threads (worker_steps w s)) = length (threads s)"
  "client_cookies (worker_steps w s) = client_cookies s"
  "config_json (worker_steps w s) = config_json s"
  "config_writes (worker_steps w s) = config_writes s"
  by (induction w s rule: worker_steps.induct; simp add: worker_step_frame)+


lemma start_task_not_idle:
  "task_status (state s) \<noteq> Idle \<Longrightarrow> start_task body launch s = (Failure TaskInProgress, s)"
  by (simp add: start_task_def)

lemma start_task_cookies:
  "cookies (state (snd (start_task body launch s))) = cookies (state s)"
  by (simp add: start_task_def spawn_def Let_def split: option.split)

lemma start_task_keeps_registered:
  "tid \<in> set (active_threads (state s))
   \<Longrightarrow> tid \<in> set (active_threads (state (snd (start_task body launch s))))"
  by (simp add: start_task_def spawn_def Let_def split: option.split)

lemma joinable_event:
  "joinable (s \<lparr> state := g \<rparr>) = joinable s"
  by (rule ext) (simp add: joinable_def)

lemma stop_tasks_success:
  "fst (fst (stop_tasks w s)) = Success \<longleftrightarrow> list_all (joinable s) (active_threads (state s))"
  by (simp add: stop_tasks_def Let_def joinable_event)

lemma stop_tasks_cookies_success:
  "fst (fst (stop_tasks w s)) = Success \<Longrightarrow> state (snd (stop_tasks w s)) = reset"
  by (simp add: stop_tasks_def Let_def joinable_event split: if_splits)

lemma stop_tasks_cookies_failure:
  "fst (fst (stop_tasks w s)) \<noteq> Success
   \<Longrightarrow> cookies (state (snd (stop_tasks w s))) = cookies (state s)"
  by (simp add: stop_tasks_def Let_def joinable_event worker_steps_frame split: if_splits)

subsection \<open>Single flight\<close>

text \<open>
  C1. The claim is that a start request is accepted only when the status is idle and that
  therefore no interleaving has two workers running at once. The first half holds
  (\<open>start_task_not_idle\<close>). The second does not follow: \<^verbatim>\<open>start_task\<close> leaves the status at
  idle, and only the first step of the new thread stores the running status. Evaluated after
  one login, two start requests in a row are both answered with success, both threads are
  registered, and after three steps of each both are inside their loops. The same happens
  without any race when a login arrives while a thread is in its loop: the reset puts the
  status back to idle, the thread goes on, and the next start request is accepted.
\<close>

theorem two_starts_two_live_workers:
  "fst (start_task bb_request True logged_in) = Success
   \<and> fst (start_task bb_request True (snd (start_task bb_request True logged_in))) = Success
   \<and> active_threads (state (snd (start_task bb_request True
        (snd (start_task bb_request True logged_in)))))
      = [0, 1]
   \<and> live_threads (worker_steps [(0, 0), (1, 0), (0, 0), (1, 0), (0, 0), (1, 0)]
        (snd (start_task bb_request True (snd (start_task bb_request True logged_in))))) = 2
   \<and> map pc (threads (worker_steps [(0, 0), (1, 0), (0, 0), (1, 0), (0, 0), (1, 0)]
        (snd (start_task bb_request True (snd (start_task bb_request True logged_in))))))
      = [Check 2 101 100, Check 2 101 100]
   \<and> map pc (threads (run
        [StartTask bb_request True, Step 0 0, Step 0 0, Step 0 0, Login ''a=b'' True Written,
         StartTask bb_request True, Step 1 0, Step 1 0, Step 0 0] logged_in))
      = [Write 2 101 100, Write 1 101 100]
   \<and> live_threads (run
        [StartTask bb_request True, Step 0 0, Step 0 0, Step 0 0, Login ''a=b'' True Written,
         StartTask bb_request True, Step 1 0, Step 1 0, Step 0 0] logged_in) = 2"
  by (simp add: model_defs bb_request_def logged_in_def live_threads_def)

subsection \<open>stop\<close>




lemma exec_keeps_logged_out:
  "\<not> accepted_login e \<Longrightarrow> cookies (state s) = None \<Longrightarrow> cookies (state (exec e s)) = None"
proof (cases e)
  case (Login cookie_text valid wr)
  assume "\<not> accepted_login e"
  with Login show ?thesis
    by (auto simp: api_login_def Let_def reset_def split: sum.split)
next
  case (StartTask body launch)
  assume "cookies (state s) = None"
  with StartTask show ?thesis by (simp add: start_task_cookies)
next
  case (Stop w)
  assume c: "cookies (state s) = None"
  show ?thesis
  proof (cases "fst (fst (stop_tasks w s)) = Success")
    case True
    then show ?thesis using Stop by (simp add: stop_tasks_cookies_success reset_def)
  next
    case False
    then show ?thesis using Stop c by (simp add: stop_tasks_cookies_failure)
  qed
next
  case (Step tid r)
  assume "cookies (state s) = None"
  with Step show ?thesis by (simp add: worker_step_frame)
qed

lemma run_keeps_logged_out:
  "list_all (\<lambda>e. \<not> accepted_login e) evs \<Longrightarrow> cookies (state s) = None
   \<Longrightarrow> cookies (state (run evs s)) = None"
  by (induction evs arbitrary: s) (simp_all add: exec_keeps_logged_out)

text \<open>
  C9, as amended. Every stop that answers success, whether or not a task was running, clears
  the stored cookies and sets the status to \<^verbatim>\<open>nologon\<close>; from then on, through any events
  among which no login gets its cookies accepted by the remote site, the course and lesson
  queries answer with the please-log-in error.
\<close>

theorem stop_tasks_logs_out:
  assumes "fst (fst (stop_tasks w s)) = Success"
    and "list_all (\<lambda>e. \<not> accepted_login e) evs"
  shows "cookies (state (snd (stop_tasks w s))) = None
    \<and> task_status (state (snd (stop_tasks w s))) = Nologon
    \<and> get_courses remote (snd (stop_tasks w s)) = Failure PleaseLogin
    \<and> get_courses remote (run evs (snd (stop_tasks w s))) = Failure PleaseLogin
    \<and> get_lessions remote (run evs (snd (stop_tasks w s))) = Failure PleaseLogin"
proof -
  have r: "state (snd (stop_tasks w s)) = reset"
    using assms(1) by (rule stop_tasks_cookies_success)
  then have c: "cookies (state (snd (stop_tasks w s))) = None"
    by (simp add: reset_def)
  have "cookies (state (run evs (snd (stop_tasks w s)))) = None"
    using assms(2) c by (rule run_keeps_logged_out)
  then show ?thesis using r
    by (simp add: get_courses_def get_lessions_def reset_def)
qed

theorem stop_tasks_logs_out_witness:
  "fst (fst (stop_tasks [] logged_in)) = Success
   \<and> list_all (\<lambda>e. \<not> accepted_login e)
        [StartTask bb_request True, Login ''a=b'' False Written, Login ''token'' True Written,
         Step 0 0]
   \<and> cookies (state logged_in) = Some [(''a'', ''b'')]
   \<and> cookies (state (snd (stop_tasks [] logged_in))) = None
   \<and> task_status (state (snd (stop_tasks [] logged_in))) = Nologon
   \<and> get_courses Success (snd (stop_tasks [] logged_in)) = Failure PleaseLogin
   \<and> get_courses Success
        (run [StartTask bb_request True, Login ''a=b'' False Written,
              Login ''token'' True Written, Step 0 0]
          (snd (stop_tasks [] logged_in))) = Failure PleaseLogin
   \<and> get_lessions Success
        (run [StartTask bb_request True, Login ''a=b'' False Written,
              Login ''token'' True Written, Step 0 0]
          (snd (stop_tasks [] logged_in))) = Failure PleaseLogin"
proof -
  have g: "fst (fst (stop_tasks [] logged_in)) = Success"
    by (simp add: model_defs logged_in_def)
  have h: "list_all (\<lambda>e. \<not> accepted_login e)
      [StartTask bb_request True, Login ''a=b'' False Written, Login ''token'' True Written,
       Step 0 0]"
    by (simp add: parse_cookies_def)
  have l: "cookies (state logged_in) = Some [(''a'', ''b'')]"
    by (simp add: logged_in_def model_defs)
  show ?thesis
    using g h l stop_tasks_logs_out [OF g h, of Success] by simp
qed

text \<open>
  C9 as stated has every stop clear the cookies and has the queries refuse until a login
  succeeds. First, with a registered thread that could not be started the stop fails in
  \<^verbatim>\<open>join\<close>: the cookies stay, the status stays idle, and the course query is let through.
  Second, take a running thread that a second login has unregistered. The stop answers
  success and resets. Then a login passes the remote check and fails at the file: it answers
  with the failure, and the cookies are stored. When the thread has run to its end and stored
  completed, the course query is let through, and no login has succeeded since the stop.
\<close>

theorem stop_tasks_logs_out_counterexample:
  "fst (fst (stop_tasks [] (snd (start_task bb_request False logged_in)))) \<noteq> Success
   \<and> cookies (state (snd (stop_tasks [] (snd (start_task bb_request False logged_in)))))
      = Some [(''a'', ''b'')]
   \<and> task_status (state (snd (stop_tasks [] (snd (start_task bb_request False logged_in)))))
      = Idle
   \<and> get_courses Success (snd (stop_tasks [] (snd (start_task bb_request False logged_in))))
      = Success
   \<and> fst (fst (stop_tasks []
        (run [StartTask (afk_request (PInt 1)) True, Step 0 0, Login ''a=b'' True Written]
          logged_in)))
      = Success
   \<and> fst (api_login ''a=b'' True OpenFailed (snd (stop_tasks []
        (run [StartTask (afk_request (PInt 1)) True, Step 0 0, Login ''a=b'' True Written]
          logged_in))))
      = Failure (Exception OSError)
   \<and> task_status (state (run
        [Login ''a=b'' True OpenFailed, Step 0 0, Step 0 0, Step 0 0, Step 0 0]
        (snd (stop_tasks []
          (run [StartTask (afk_request (PInt 1)) True, Step 0 0, Login ''a=b'' True Written]
            logged_in)))))
      = Completed
   \<and> get_courses Success (run
        [Login ''a=b'' True OpenFailed, Step 0 0, Step 0 0, Step 0 0, Step 0 0]
        (snd (stop_tasks []
          (run [StartTask (afk_request (PInt 1)) True, Step 0 0, Login ''a=b'' True Written]
            logged_in))))
      = Success"
  by (simp add: model_defs bb_request_def afk_request_def logged_in_def get_courses_def)

subsection \<open>start\<close>

text \<open>
  C3, as amended. An accepted start request (status idle, all three keys present, a known
  type, and \<^verbatim>\<open>Thread.start\<close> gets a thread) is answered with success; it creates exactly
  one thread object of the class named by the type, started and not yet run, and appends it
  to the registered threads; it leaves progress and the stop event as it found them.
\<close>

theorem start_task_accepted:
  assumes "task_status (state s) = Idle"
    and "ty = ''brain_burst'' \<and> c = BrainBurstThread
         \<or> ty = ''away_from_keyboard'' \<and> c = AwayFromKeyboardThread"
  shows "fst (start_task (Some \<lparr> req_type = Some ty, req_unitIndex = Some u, req_params = Some p \<rparr>)
            True s)
        = Success
    \<and> threads (snd (start_task (Some \<lparr> req_type = Some ty, req_unitIndex = Some u,
          req_params = Some p \<rparr>) True s))
        = threads s @ [\<lparr> cls = c, unit_idx = u, arg = p, pc = Init, started = True \<rparr>]
    \<and> active_threads (state (snd (start_task (Some \<lparr> req_type = Some ty, req_unitIndex = Some u,
          req_params = Some p \<rparr>) True s)))
        = active_threads (state s) @ [length (threads s)]
    \<and> progress (state (snd (start_task (Some \<lparr> req_type = Some ty, req_unitIndex = Some u,
          req_params = Some p \<rparr>) True s)))
        = progress (state s)
    \<and> stop_event (state (snd (start_task (Some \<lparr> req_type = Some ty, req_unitIndex = Some u,
          req_params = Some p \<rparr>) True s)))
        = stop_event (state s)"
  using assms by (auto simp: start_task_def spawn_def new_thread_def Let_def)

theorem start_task_accepted_witness:
  "task_status (state logged_in) = Idle
   \<and> fst (start_task bb_request True logged_in) = Success
   \<and> threads (snd (start_task bb_request True logged_in))
      = [\<lparr> cls = BrainBurstThread, unit_idx = 0, arg = PInt 1, pc = Init, started = True \<rparr>]
   \<and> active_threads (state (snd (start_task bb_request True logged_in))) = [0]
   \<and> progress (state (snd (start_task bb_request True logged_in))) = (0, 0)
   \<and> stop_event (state (snd (start_task bb_request True logged_in))) = False"
proof -
  have h: "task_status (state logged_in) = Idle"
    by (simp add: logged_in_def model_defs)
  have l: "threads logged_in = []" "active_threads (state logged_in) = []"
    "progress (state logged_in) = (0, 0)" "stop_event (state logged_in) = False"
    by (simp_all add: logged_in_def model_defs)
  show ?thesis
    using h l start_task_accepted
      [of logged_in "''brain_burst''" BrainBurstThread 0 "PInt 1"]
    by (simp add: bb_request_def)
qed

text \<open>
  C3 as stated has the status running, the progress (0,0) and the stop event clear when the
  call returns. After a login, an accepted start leaves the status idle. When a thread of an
  earlier session is still running (login resets the state without stopping it), its next
  progress store lands in the idle state, and an accepted start leaves that progress in
  place. And after a stop that failed in \<^verbatim>\<open>join\<close> the status is still idle and the event
  is set; an accepted start leaves it set.
\<close>

theorem start_task_counterexample:
  "task_status (state logged_in) = Idle
   \<and> fst (start_task bb_request True logged_in) = Success
   \<and> task_status (state (snd (start_task bb_request True logged_in))) \<noteq> Brain_burst
   \<and> task_status (state (run [StartTask bb_request True, Step 0 0, Step 0 0,
        Login ''a=b'' True Written, Step 0 0] logged_in))
      = Idle
   \<and> fst (start_task bb_request True
        (run [StartTask bb_request True, Step 0 0, Step 0 0, Login ''a=b'' True Written,
              Step 0 0] logged_in))
      = Success
   \<and> progress (state (snd (start_task bb_request True
        (run [StartTask bb_request True, Step 0 0, Step 0 0, Login ''a=b'' True Written,
              Step 0 0] logged_in))))
      \<noteq> (0, 0)
   \<and> task_status (state (run [StartTask bb_request False, Stop []] logged_in)) = Idle
   \<and> fst (start_task bb_request True (run [StartTask bb_request False, Stop []] logged_in))
      = Success
   \<and> stop_event (state (snd (start_task bb_request True
        (run [StartTask bb_request False, Stop []] logged_in))))"
  by (simp add: model_defs bb_request_def logged_in_def)

text \<open>
  C4. The claim asks that a start request in a session that is not logged in be answered
  with the not-authenticated error and spawn nothing. The two query handlers refuse such a
  session at lines 300 and 317 (cookies missing or empty, or status \<^verbatim>\<open>nologon\<close>) with the
  please-log-in error; \<^verbatim>\<open>start_task\<close> has no such test. In the fresh process, where the
  course query answers please-log-in, a start request is answered with the error for a task
  already in progress. And after a login whose cookie text is empty and which the remote
  site accepts, the jar is empty, the course query still answers please-log-in, and a start
  request is accepted and starts a thread.
\<close>

theorem start_task_without_login:
  "falsy (cookies (state init_system))
   \<and> task_status (state init_system) = Nologon
   \<and> get_courses Success init_system = Failure PleaseLogin
   \<and> fst (start_task bb_request True init_system) = Failure TaskInProgress
   \<and> fst (start_task bb_request True init_system) \<noteq> Failure PleaseLogin
   \<and> falsy (cookies (state (snd (api_login [] True Written logged_in))))
   \<and> get_courses Success (snd (api_login [] True Written logged_in)) = Failure PleaseLogin
   \<and> fst (start_task bb_request True (snd (api_login [] True Written logged_in))) = Success
   \<and> live_threads (snd (start_task bb_request True (snd (api_login [] True Written logged_in))))
      = 1"
  by (simp add: model_defs bb_request_def logged_in_def get_courses_def live_threads_def)

subsection \<open>login\<close>



subsection \<open>The duration worker\<close>

text \<open>
  C6. For the range (2,2) the duration is resolved once, in the step after the status store,
  and is 2 for every draw. Run without cancellation the thread stores the status, the
  progress pairs (0,2) and (1,2), and the status completed; it then has left \<^verbatim>\<open>run\<close>, and the
  status query shows completed with progress (1,2), not (2,2) as the claim has it:
  \<^verbatim>\<open>range(total)\<close> ends at \<open>total - 1\<close>, where the loop of \<^verbatim>\<open>BrainBurstThread\<close> runs over
  \<^verbatim>\<open>range(1, 101)\<close> and ends at (100,100).
\<close>

theorem duration_worker_2_2:
  "resolve_total r (PTuple 2 2) = Inr 2
   \<and> thread_trace (replicate 7 (False, r)) (new_thread AwayFromKeyboardThread 0 (PTuple 2 2))
      = [WStatus Away_from_keyboard, WProgress 0 2, WProgress 1 2, WStatus Completed]
   \<and> pc (thread_after (replicate 7 (False, r)) (new_thread AwayFromKeyboardThread 0 (PTuple 2 2)))
      = Done
   \<and> get_status (worker_steps (replicate 7 (0, r))
        (snd (spawn (new_thread AwayFromKeyboardThread 0 (PTuple 2 2)) True logged_in)))
      = (Completed, (1, 2), 1)"
  by (simp add: model_defs logged_in_def randint_def get_status_def numeral_eq_Suc)

subsection \<open>The steps of one thread\<close>

lemma thread_step_pc:
  "pc t = Check i hi tot \<Longrightarrow>
     thread_step stop r t = (None, t \<lparr> pc := (if stop then Finish else Write i hi tot) \<rparr>)"
  "pc t = Write i hi tot \<Longrightarrow>
     thread_step stop r t = (Some (WProgress i tot), t \<lparr> pc := enter_loop (i + 1) hi tot \<rparr>)"
  "pc t = Finish \<Longrightarrow> thread_step stop r t = (Some (WStatus Completed), t \<lparr> pc := Done \<rparr>)"
  "pc t = Failed \<Longrightarrow> thread_step stop r t = (Some (WStatus Error), t \<lparr> pc := Done \<rparr>)"
  "pc t = Done \<Longrightarrow> thread_step stop r t = (None, t)"
  by (simp_all add: thread_step_def)

lemma done_trace:
  "pc t = Done \<Longrightarrow> thread_trace obs t = [] \<and> thread_after obs t = t"
  by (induction obs) (auto simp: thread_step_pc)

lemma exit_no_progress:
  "pc t = Finish \<or> pc t = Failed \<Longrightarrow> progress_writes (thread_trace obs t) = []"
  by (cases obs) (auto simp: thread_step_pc done_trace)

text \<open>Inside the loop at index \<open>i\<close>: what is still to be stored starts at \<open>i\<close>, stays
  below the end of the range, and goes up.\<close>

lemma loop_trace:
  "pc t = Check i hi tot \<or> pc t = Write i hi tot \<Longrightarrow> i < hi \<Longrightarrow>
   sorted (map fst (progress_writes (thread_trace obs t)))
   \<and> list_all (\<lambda>(c, n). i \<le> c \<and> c < hi \<and> n = tot) (progress_writes (thread_trace obs t))"
proof (induction obs arbitrary: t i)
  case Nil
  then show ?case by simp
next
  case (Cons ob obs)
  obtain stop r where ob: "ob = (stop, r)" by (cases ob)
  from Cons.prems(1) show ?case
  proof
    assume c: "pc t = Check i hi tot"
    show ?thesis
    proof (cases stop)
      case True
      then show ?thesis using c ob
        by (simp add: thread_step_pc exit_no_progress)
    next
      case False
      have "pc (t \<lparr> pc := Write i hi tot \<rparr>) = Check i hi tot
          \<or> pc (t \<lparr> pc := Write i hi tot \<rparr>) = Write i hi tot"
        by simp
      from Cons.IH [OF this Cons.prems(2)] show ?thesis using c ob False
        by (simp add: thread_step_pc)
    qed
  next
    assume w: "pc t = Write i hi tot"
    show ?thesis
    proof (cases "i + 1 < hi")
      case True
      have "pc (t \<lparr> pc := Check (i + 1) hi tot \<rparr>) = Check (i + 1) hi tot
          \<or> pc (t \<lparr> pc := Check (i + 1) hi tot \<rparr>) = Write (i + 1) hi tot"
        by simp
      from Cons.IH [OF this True] have
        ih: "sorted (map fst (progress_writes (thread_trace obs (t \<lparr> pc := Check (i + 1) hi tot \<rparr>))))"
          "list_all (\<lambda>(c, n). i + 1 \<le> c \<and> c < hi \<and> n = tot)
            (progress_writes (thread_trace obs (t \<lparr> pc := Check (i + 1) hi tot \<rparr>)))"
        by simp_all
      from ih(2) have
        "list_all (\<lambda>(c, n). i \<le> c \<and> c < hi \<and> n = tot)
            (progress_writes (thread_trace obs (t \<lparr> pc := Check (i + 1) hi tot \<rparr>)))"
        by (auto simp: list_all_iff)
      moreover from ih(2) have
        "\<forall>x\<in>set (map fst (progress_writes (thread_trace obs (t \<lparr> pc := Check (i + 1) hi tot \<rparr>)))).
           i \<le> x"
        by (auto simp: list_all_iff)
      ultimately show ?thesis using w ob True ih(1) Cons.prems(2)
        by (simp add: thread_step_pc enter_loop_def)
    next
      case False
      then show ?thesis using w ob Cons.prems(2)
        by (simp add: thread_step_pc enter_loop_def exit_no_progress)
    qed
  qed
qed

lemma enter_loop_trace:
  "pc t = enter_loop i hi tot \<Longrightarrow>
   sorted (map fst (progress_writes (thread_trace obs t)))
   \<and> list_all (\<lambda>(c, n). c < hi \<and> n = tot) (progress_writes (thread_trace obs t))"
proof (cases "i < hi")
  case True
  assume "pc t = enter_loop i hi tot"
  with True have "pc t = Check i hi tot \<or> pc t = Write i hi tot"
    by (simp add: enter_loop_def)
  from loop_trace [OF this True, of obs] show ?thesis
    by (auto simp: list_all_iff)
next
  case False
  assume "pc t = enter_loop i hi tot"
  with False show ?thesis by (simp add: enter_loop_def exit_no_progress)
qed

lemma resolve_trace:
  "pc t = Resolve \<Longrightarrow>
   sorted (map fst (progress_writes (thread_trace obs t)))
   \<and> list_all (\<lambda>(c, n). c \<le> n) (progress_writes (thread_trace obs t))"
proof (cases obs)
  case Nil
  then show ?thesis by simp
next
  case (Cons ob obs')
  assume p: "pc t = Resolve"
  obtain stop r where ob: "ob = (stop, r)" by (cases ob)
  show ?thesis
  proof (cases "resolve_total r (arg t)")
    case (Inl e)
    then show ?thesis using p ob Cons
      by (simp add: thread_step_def exit_no_progress)
  next
    case (Inr tot)
    have "pc (t \<lparr> pc := enter_loop 0 tot tot \<rparr>) = enter_loop 0 tot tot" by simp
    from enter_loop_trace [OF this, of obs'] show ?thesis using p ob Cons Inr
      by (auto simp: thread_step_def list_all_iff)
  qed
qed

text \<open>
  C7. For a thread of either class, with any arguments, stepped from its start with any
  readings of the stop event and any draws: the progress pairs it stores, in the order it
  stores them, never go down in their first component, and every stored pair with a positive
  total has its first component at most the total.
\<close>

theorem progress_monotone_and_bounded:
  "sorted (map fst (progress_writes (thread_trace obs (new_thread c u p))))
   \<and> (\<forall>(cur, tot) \<in> set (progress_writes (thread_trace obs (new_thread c u p))).
        0 < tot \<longrightarrow> cur \<le> tot)"
proof (cases obs)
  case Nil
  then show ?thesis by simp
next
  case (Cons ob obs')
  obtain stop r where ob: "ob = (stop, r)" by (cases ob)
  show ?thesis
  proof (cases c)
    case BrainBurstThread
    have "pc (new_thread c u p \<lparr> pc := enter_loop 1 101 100 \<rparr>) = enter_loop 1 101 100" by simp
    from enter_loop_trace [OF this, of obs'] show ?thesis using ob Cons BrainBurstThread
      by (auto simp: thread_step_def new_thread_def list_all_iff)
  next
    case AwayFromKeyboardThread
    have "pc (new_thread c u p \<lparr> pc := Resolve \<rparr>) = Resolve" by simp
    from resolve_trace [OF this, of obs'] show ?thesis using ob Cons AwayFromKeyboardThread
      by (auto simp: thread_step_def new_thread_def list_all_iff)
  qed
qed

theorem progress_monotone_and_bounded_witness:
  "progress_writes (thread_trace (replicate 9 (False, 0)) (new_thread AwayFromKeyboardThread 0 (PInt 3)))
     = [(0, 3), (1, 3), (2, 3)]
   \<and> sorted (map fst (progress_writes
        (thread_trace (replicate 9 (False, 0)) (new_thread AwayFromKeyboardThread 0 (PInt 3)))))
   \<and> (0::int) < 3 \<and> (2::int) \<le> 3"
proof -
  have e: "progress_writes
      (thread_trace (replicate 9 (False, 0)) (new_thread AwayFromKeyboardThread 0 (PInt 3)))
     = [(0, 3), (1, 3), (2, 3)]"
    by (simp add: thread_step_def new_thread_def enter_loop_def numeral_eq_Suc)
  have m: "((2::int), (3::int)) \<in> set (progress_writes
      (thread_trace (replicate 9 (False, 0)) (new_thread AwayFromKeyboardThread 0 (PInt 3))))"
    unfolding e by simp
  have p: "(0::int) < 3" by simp
  from progress_monotone_and_bounded [of "replicate 9 (False, 0)" AwayFromKeyboardThread 0 "PInt 3"]
  have s: "sorted (map fst (progress_writes
        (thread_trace (replicate 9 (False, 0)) (new_thread AwayFromKeyboardThread 0 (PInt 3)))))"
    and b: "\<forall>(cur, tot) \<in> set (progress_writes
        (thread_trace (replicate 9 (False, 0)) (new_thread AwayFromKeyboardThread 0 (PInt 3)))).
        0 < tot \<longrightarrow> cur \<le> tot"
    by blast+
  from b m p have "(2::int) \<le> 3" by blast
  with e s p show ?thesis by blast
qed

subsection \<open>Cancellation\<close>

lemma valid_duration_resolves:
  "valid_duration p \<Longrightarrow> \<exists>n. resolve_total r p = Inr n"
  by (cases p) simp_all

lemma four_steps:
  assumes "4 \<le> length obs"
  obtains b1 r1 b2 r2 b3 r3 b4 r4 rest
  where "obs = (b1, r1) # (b2, r2) # (b3, r3) # (b4, r4) # rest"
proof -
  from assms obtain o1 o2 o3 o4 rest where o: "obs = o1 # o2 # o3 # o4 # rest"
    by (cases obs; simp; rename_tac xs; case_tac xs; simp; rename_tac ys; case_tac ys; simp;
        rename_tac zs; case_tac zs; simp)
  then have "obs = (fst o1, snd o1) # (fst o2, snd o2) # (fst o3, snd o3) # (fst o4, snd o4) # rest"
    by simp
  then show ?thesis by (rule that)
qed

lemma all_set_reads_set: "list_all fst obs \<Longrightarrow> reads_set obs t"
  by (induction obs arbitrary: t) (auto split: pc.split)

lemma leave_loop:
  assumes "pc t = enter_loop i hi tot" and "reads_set ((b1, r1) # (b2, r2) # rest) t"
  shows "thread_trace ((b1, r1) # (b2, r2) # rest) t = [WStatus Completed]
    \<and> pc (thread_after ((b1, r1) # (b2, r2) # rest) t) = Done"
proof (cases "i < hi")
  case True
  with assms(1) have c: "pc t = Check i hi tot" by (simp add: enter_loop_def)
  with assms(2) have "b1" by simp
  with c show ?thesis by (simp add: thread_step_pc done_trace)
next
  case False
  with assms(1) have "pc t = Finish" by (simp add: enter_loop_def)
  then show ?thesis by (simp add: thread_step_pc done_trace)
qed

text \<open>
  C8, as amended. Take a thread that is inside \<^verbatim>\<open>run\<close> and whose set-up has not raised
  and will not raise (every \<^verbatim>\<open>BrainBurstThread\<close>; an \<^verbatim>\<open>AwayFromKeyboardThread\<close> with an
  integer or a tuple \<open>(a, b)\<close>, \<open>a \<le> b\<close>, or one already in its loop). If the stop event is
  set when the thread next reads it, the thread ends within one turn of its loop: the only
  progress pair it still stores is the one whose check it had already passed, at the next
  check it breaks, and it leaves \<^verbatim>\<open>run\<close> (four steps are enough from any place). The last
  thing it stores is the status completed; it never stores error; and what it stored before
  stays.
\<close>

theorem cancelled_worker_completes:
  assumes "in_flight t" and "reads_set obs t" and "4 \<le> length obs"
  shows "pc (thread_after obs t) = Done
    \<and> last (thread_trace obs t) = WStatus Completed
    \<and> WStatus Error \<notin> set (thread_trace obs t)
    \<and> progress_writes (thread_trace obs t)
        = (case pc t of Write i hi tot \<Rightarrow> [(i, tot)] | _ \<Rightarrow> [])"
proof -
  from assms(3) obtain b1 r1 b2 r2 b3 r3 b4 r4 rest
    where obs: "obs = (b1, r1) # (b2, r2) # (b3, r3) # (b4, r4) # rest"
    by (rule four_steps)
  show ?thesis
  proof (cases "pc t")
    case Init
    show ?thesis
    proof (cases "cls t")
      case BrainBurstThread
      let ?t1 = "t \<lparr> pc := enter_loop 1 101 100 \<rparr>"
      have s1: "thread_step b1 r1 t = (Some (WStatus Brain_burst), ?t1)"
        using Init BrainBurstThread by (simp add: thread_step_def)
      have "reads_set ((b2, r2) # (b3, r3) # (b4, r4) # rest) ?t1"
        using assms(2) obs s1 by simp
      from leave_loop [OF _ this, of 1 101 100] show ?thesis
        using Init obs s1 by simp
    next
      case AwayFromKeyboardThread
      with assms(1) Init have "valid_duration (arg t)" by (simp add: in_flight_def)
      then obtain n where n: "resolve_total r2 (arg t) = Inr n"
        using valid_duration_resolves by blast
      let ?t1 = "t \<lparr> pc := Resolve \<rparr>"
      let ?t2 = "t \<lparr> pc := enter_loop 0 n n \<rparr>"
      have s1: "thread_step b1 r1 t = (Some (WStatus Away_from_keyboard), ?t1)"
        using Init AwayFromKeyboardThread by (simp add: thread_step_def)
      have s2: "thread_step b2 r2 ?t1 = (None, ?t2)"
        using n by (simp add: thread_step_def)
      have "reads_set ((b3, r3) # (b4, r4) # rest) ?t2"
        using assms(2) obs s1 s2 by simp
      from leave_loop [OF _ this, of 0 n n] show ?thesis
        using Init obs s1 s2 by simp
    qed
  next
    case Resolve
    with assms(1) have "valid_duration (arg t)" by (simp add: in_flight_def)
    then obtain n where n: "resolve_total r1 (arg t) = Inr n"
      using valid_duration_resolves by blast
    let ?t1 = "t \<lparr> pc := enter_loop 0 n n \<rparr>"
    have s1: "thread_step b1 r1 t = (None, ?t1)"
      using Resolve n by (simp add: thread_step_def)
    have "reads_set ((b2, r2) # (b3, r3) # (b4, r4) # rest) ?t1"
      using assms(2) obs s1 by simp
    from leave_loop [OF _ this, of 0 n n] show ?thesis
      using Resolve obs s1 by simp
  next
    case (Check i hi tot)
    with assms(2) obs have "b1" by simp
    with Check show ?thesis using obs by (simp add: thread_step_pc done_trace)
  next
    case (Write i hi tot)
    let ?t1 = "t \<lparr> pc := enter_loop (i + 1) hi tot \<rparr>"
    have s1: "thread_step b1 r1 t = (Some (WProgress i tot), ?t1)"
      using Write by (simp add: thread_step_pc)
    have "reads_set ((b2, r2) # (b3, r3) # (b4, r4) # rest) ?t1"
      using assms(2) obs s1 by simp
    from leave_loop [OF _ this, of "i + 1" hi tot] show ?thesis
      using Write obs s1 by simp
  next
    case Finish
    then show ?thesis using obs by (simp add: thread_step_pc done_trace)
  next
    case Failed
    with assms(1) show ?thesis by (simp add: in_flight_def)
  next
    case Done
    with assms(1) show ?thesis by (simp add: in_flight_def)
  qed
qed

theorem cancelled_worker_completes_witness:
  "in_flight \<lparr> cls = BrainBurstThread, unit_idx = 0, arg = PInt 1, pc = Write 7 101 100,
      started = True \<rparr>
   \<and> reads_set [(False, 0), (True, 0), (False, 0), (False, 0)]
        \<lparr> cls = BrainBurstThread, unit_idx = 0, arg = PInt 1, pc = Write 7 101 100,
          started = True \<rparr>
   \<and> 4 \<le> length [(False, 0::int), (True, 0), (False, 0), (False, 0)]
   \<and> pc (thread_after [(False, 0), (True, 0), (False, 0), (False, 0)]
        \<lparr> cls = BrainBurstThread, unit_idx = 0, arg = PInt 1, pc = Write 7 101 100,
          started = True \<rparr>) = Done
   \<and> thread_trace [(False, 0), (True, 0), (False, 0), (False, 0)]
        \<lparr> cls = BrainBurstThread, unit_idx = 0, arg = PInt 1, pc = Write 7 101 100,
          started = True \<rparr>
      = [WProgress 7 100, WStatus Completed]"
proof -
  have h: "in_flight \<lparr> cls = BrainBurstThread, unit_idx = 0, arg = PInt 1, pc = Write 7 101 100,
      started = True \<rparr>"
    "reads_set [(False, 0), (True, 0), (False, 0), (False, 0)]
        \<lparr> cls = BrainBurstThread, unit_idx = 0, arg = PInt 1, pc = Write 7 101 100,
          started = True \<rparr>"
    "4 \<le> length [(False, 0::int), (True, 0), (False, 0), (False, 0)]"
    by (simp_all add: in_flight_def thread_step_def enter_loop_def)
  show ?thesis
    using h cancelled_worker_completes [OF h]
    by (simp add: thread_step_def enter_loop_def)
qed

text \<open>
  C8 as stated has every running worker end, and not in error, within one turn of its loop
  once the stop event is set. First, a start request for the duration worker whose parameter
  is the JSON array [2, 2] is accepted; its thread, reading the stop event as set at every
  step, stores its running status, fails in \<^verbatim>\<open>range\<close>, stores error and leaves \<^verbatim>\<open>run\<close>.
  Second, take a thread in its loop that a second login has unregistered. A stop sets the
  event, has no thread to join, and replaces the event; it answers success. The thread never
  reads the event as set: six steps later it is three turns further on and still running.
\<close>

theorem cancelled_worker_error_counterexample:
  "fst (start_task (afk_request (PList [2, 2])) True logged_in) = Success
   \<and> threads (snd (start_task (afk_request (PList [2, 2])) True logged_in))
      = [new_thread AwayFromKeyboardThread 0 (PList [2, 2]) \<lparr> started := True \<rparr>]
   \<and> thread_trace [(True, 0), (True, 0), (True, 0)]
        (new_thread AwayFromKeyboardThread 0 (PList [2, 2]) \<lparr> started := True \<rparr>)
      = [WStatus Away_from_keyboard, WStatus Error]
   \<and> pc (thread_after [(True, 0), (True, 0), (True, 0)]
        (new_thread AwayFromKeyboardThread 0 (PList [2, 2]) \<lparr> started := True \<rparr>))
      = Done
   \<and> map pc (threads (run [StartTask bb_request True, Step 0 0, Step 0 0,
        Login ''a=b'' True Written] logged_in))
      = [Write 1 101 100]
   \<and> live_threads (run [StartTask bb_request True, Step 0 0, Step 0 0,
        Login ''a=b'' True Written] logged_in) = 1
   \<and> fst (fst (stop_tasks [] (run [StartTask bb_request True, Step 0 0, Step 0 0,
        Login ''a=b'' True Written] logged_in))) = Success
   \<and> map pc (threads (worker_steps [(0, 0), (0, 0), (0, 0), (0, 0), (0, 0), (0, 0)]
        (snd (stop_tasks [] (run [StartTask bb_request True, Step 0 0, Step 0 0,
          Login ''a=b'' True Written] logged_in)))))
      = [Write 4 101 100]
   \<and> live_threads (worker_steps [(0, 0), (0, 0), (0, 0), (0, 0), (0, 0), (0, 0)]
        (snd (stop_tasks [] (run [StartTask bb_request True, Step 0 0, Step 0 0,
          Login ''a=b'' True Written] logged_in)))) = 1"
  by (simp add: model_defs afk_request_def bb_request_def logged_in_def live_threads_def)

subsection \<open>After a thread has ended by itself\<close>

lemma exec_keeps_registered:
  assumes "no_reset e" and "tid \<in> set (active_threads (state s))"
  shows "tid \<in> set (active_threads (state (exec e s)))"
proof (cases e)
  case (StartTask body launch)
  then show ?thesis using assms(2) by (simp add: start_task_keeps_registered)
next
  case (Step j r)
  then show ?thesis using assms(2) by (simp add: worker_step_frame)
qed (use assms(1) in simp_all)

lemma run_keeps_registered:
  "list_all no_reset evs \<Longrightarrow> tid \<in> set (active_threads (state s))
   \<Longrightarrow> tid \<in> set (active_threads (state (run evs s)))"
  by (induction evs arbitrary: s) (simp_all add: exec_keeps_registered)

lemma settled_exec:
  assumes "no_reset e" and "list_all (\<lambda>t. \<not> live t) (threads s)"
    and "terminal (task_status (state s))"
  shows "exec e s = s"
proof (cases e)
  case (StartTask body launch)
  from assms(3) have "task_status (state s) \<noteq> Idle" by (auto simp: terminal_def)
  then show ?thesis using StartTask by (simp add: start_task_not_idle)
next
  case (Step tid r)
  show ?thesis
  proof (cases "tid < length (threads s) \<and> started (threads s ! tid)")
    case True
    with assms(2) have "pc (threads s ! tid) = Done"
      by (auto simp: list_all_length live_def)
    then show ?thesis using Step True
      by (simp add: worker_step_def thread_step_pc)
  next
    case False
    then show ?thesis using Step by (auto simp: worker_step_def)
  qed
qed (use assms(1) in simp_all)

lemma settled_run:
  "list_all no_reset evs \<Longrightarrow> list_all (\<lambda>t. \<not> live t) (threads s)
   \<Longrightarrow> terminal (task_status (state s)) \<Longrightarrow> run evs s = s"
  by (induction evs) (simp_all add: settled_exec)

text \<open>
  C10, as amended. A thread that ends by itself is not taken out of the registered threads
  by its ending: whatever else is registered or running, it is still registered after its
  own steps and after any start requests and scheduler steps, that is until a stop or a
  login. When it was the only registered thread, about to leave \<^verbatim>\<open>run\<close>, and no other
  thread was running, then from its last step until a stop or a login the status query shows
  completed or error together with one active thread, every start request is answered with
  the error for a status that is not idle, and no thread is running.
\<close>

theorem terminated_worker_stays_registered:
  assumes "tid \<in> set (active_threads (state s))" and "list_all no_reset evs"
  shows "tid \<in> set (active_threads (state (worker_step tid r s)))
    \<and> tid \<in> set (active_threads (state (run evs (worker_step tid r s))))
    \<and> (sole_worker s tid \<longrightarrow>
          pc (threads (worker_step tid r s) ! tid) = Done
        \<and> active_threads (state (run evs (worker_step tid r s))) = [tid]
        \<and> (get_status (run evs (worker_step tid r s)) = (Completed, progress (state s), 1)
            \<or> get_status (run evs (worker_step tid r s)) = (Error, progress (state s), 1))
        \<and> fst (start_task body launch (run evs (worker_step tid r s))) = Failure TaskInProgress
        \<and> live_threads (run evs (worker_step tid r s)) = 0)"
proof -
  let ?s = "worker_step tid r s"
  have reg: "tid \<in> set (active_threads (state ?s))"
    using assms(1) by (simp add: worker_step_frame)
  from assms(2) reg have reg': "tid \<in> set (active_threads (state (run evs ?s)))"
    by (rule run_keeps_registered)
  have sole: "pc (threads ?s ! tid) = Done
        \<and> active_threads (state (run evs ?s)) = [tid]
        \<and> (get_status (run evs ?s) = (Completed, progress (state s), 1)
            \<or> get_status (run evs ?s) = (Error, progress (state s), 1))
        \<and> fst (start_task body launch (run evs ?s)) = Failure TaskInProgress
        \<and> live_threads (run evs ?s) = 0"
    if sw: "sole_worker s tid"
  proof -
    from sw have lt: "tid < length (threads s)"
      and a0: "active_threads (state s) = [tid]"
      and stt: "started (threads s ! tid)"
      and fin: "pc (threads s ! tid) = Finish \<or> pc (threads s ! tid) = Failed"
      and oth: "\<forall>j < length (threads s). j = tid \<or> \<not> live (threads s ! j)"
      by (auto simp: sole_worker_def list_all_iff)
    have d: "pc (threads ?s ! tid) = Done"
      using lt stt fin by (auto simp: worker_step_def thread_step_pc)
    have a: "active_threads (state ?s) = [tid]"
      using a0 by (simp add: worker_step_frame)
    have len: "length (threads ?s) = length (threads s)"
      by (simp add: worker_step_frame)
    have all: "list_all (\<lambda>t. \<not> live t) (threads ?s)"
      unfolding list_all_length
    proof (intro allI impI)
      fix j assume j: "j < length (threads ?s)"
      show "\<not> live (threads ?s ! j)"
      proof (cases "j = tid")
        case True
        then show ?thesis using d by (simp add: live_def)
      next
        case False
        with j len oth have "\<not> live (threads s ! j)" by auto
        moreover have "threads ?s ! j = threads s ! j"
          using False lt by (simp add: worker_step_def split: prod.split)
        ultimately show ?thesis by simp
      qed
    qed
    have st: "task_status (state ?s) = Completed \<and> progress (state ?s) = progress (state s)
        \<or> task_status (state ?s) = Error \<and> progress (state ?s) = progress (state s)"
      using lt stt fin by (auto simp: worker_step_def thread_step_pc)
    then have tm: "terminal (task_status (state ?s))" by (auto simp: terminal_def)
    have r: "run evs ?s = ?s"
      using assms(2) all tm by (rule settled_run)
    have "task_status (state ?s) \<noteq> Idle" using st by auto
    then have "fst (start_task body launch ?s) = Failure TaskInProgress"
      by (simp add: start_task_not_idle)
    moreover have "live_threads ?s = 0"
      using all by (simp add: live_threads_def list_all_iff live_def)
    ultimately show ?thesis using d a st r
      by (auto simp: get_status_def)
  qed
  from reg reg' sole show ?thesis by blast
qed

theorem terminated_worker_stays_registered_witness:
  "0 \<in> set (active_threads
      (state (run [StartTask (afk_request (PInt 0)) True, Step 0 0, Step 0 0] logged_in)))
   \<and> list_all no_reset [StartTask bb_request True, Step 0 0, StartTask (afk_request (PInt 5)) True]
   \<and> sole_worker (run [StartTask (afk_request (PInt 0)) True, Step 0 0, Step 0 0] logged_in) 0
   \<and> map pc (threads (run [StartTask (afk_request (PInt 0)) True, Step 0 0, Step 0 0] logged_in))
      = [Finish]
   \<and> get_status (run [StartTask bb_request True, Step 0 0, StartTask (afk_request (PInt 5)) True]
        (worker_step 0 0
          (run [StartTask (afk_request (PInt 0)) True, Step 0 0, Step 0 0] logged_in)))
      = (Completed, (0, 0), 1)
   \<and> fst (start_task bb_request True
        (run [StartTask bb_request True, Step 0 0, StartTask (afk_request (PInt 5)) True]
          (worker_step 0 0
            (run [StartTask (afk_request (PInt 0)) True, Step 0 0, Step 0 0] logged_in))))
      = Failure TaskInProgress"
proof -
  let ?s = "run [StartTask (afk_request (PInt 0)) True, Step 0 0, Step 0 0] logged_in"
  let ?evs = "[StartTask bb_request True, Step 0 0, StartTask (afk_request (PInt 5)) True]"
  have t: "map pc (threads ?s) = [Finish]"
    and a: "active_threads (state ?s) = [0]"
    by (simp_all add: model_defs afk_request_def logged_in_def)
  have h1: "0 \<in> set (active_threads (state ?s))" using a by simp
  have h2: "list_all no_reset ?evs" by simp
  have h3: "sole_worker ?s 0"
    by (simp add: sole_worker_def model_defs afk_request_def logged_in_def)
  have c: "get_status (worker_step 0 0 ?s) = (Completed, (0, 0), 1)"
    by (simp add: model_defs afk_request_def logged_in_def get_status_def)
  have r: "run ?evs (worker_step 0 0 ?s) = worker_step 0 0 ?s"
    by (simp add: model_defs afk_request_def bb_request_def logged_in_def)
  from terminated_worker_stays_registered [OF h1 h2, of 0 bb_request True] h3
  have "fst (start_task bb_request True (run ?evs (worker_step 0 0 ?s))) = Failure TaskInProgress"
    by blast
  with h1 h2 h3 t c show ?thesis unfolding r by simp
qed

text \<open>
  C10 as stated has the status query show one active thread and a terminal status after a
  thread has ended by itself. After two accepted start requests in a row both threads are
  registered. The first ends by itself, storing completed: the query shows two active
  threads. With the next step of the second thread the query shows a running status.
\<close>

theorem terminated_worker_counterexample:
  "map pc (threads (run [StartTask (afk_request (PInt 0)) True, StartTask bb_request True,
        Step 0 0, Step 0 0] logged_in))
      = [Finish, Init]
   \<and> pc (threads (worker_step 0 0 (run [StartTask (afk_request (PInt 0)) True,
        StartTask bb_request True, Step 0 0, Step 0 0] logged_in)) ! 0) = Done
   \<and> get_status (worker_step 0 0 (run [StartTask (afk_request (PInt 0)) True,
        StartTask bb_request True, Step 0 0, Step 0 0] logged_in))
      = (Completed, (0, 0), 2)
   \<and> get_status (run [Step 1 0] (worker_step 0 0 (run [StartTask (afk_request (PInt 0)) True,
        StartTask bb_request True, Step 0 0, Step 0 0] logged_in)))
      = (Brain_burst, (0, 0), 2)"
  by (simp add: model_defs afk_request_def bb_request_def logged_in_def get_status_def)

end
